theory Spec2Isabelle
  imports Complex_Main "HOL-Library.Sublist"
begin

section \<open>Conventions of the embedding\<close>

text \<open>
  The three frame loops of the repository are embedded: the demo loop of
  \<^verbatim>\<open>examples/basic_demo.py\<close>, the game loop of \<^verbatim>\<open>examples/python/platformer_game.py\<close>
  (with \<^verbatim>\<open>Player.update\<close> and \<^verbatim>\<open>PlatformerGame.update\<close>) and
  \<^verbatim>\<open>GameApplication.run\<close> of \<^verbatim>\<open>build/bin/nexus_api.py\<close>.

  Python floats are idealised as \<^typ>\<open>real\<close>: rounding, infinities and NaN are not
  modelled. Everything a loop obtains from outside (the answers of \<^verbatim>\<open>time.time()\<close>, of the
  native engine, and the behaviour of overridden callbacks) is an explicit input: a list
  holding, for each evaluation of the loop condition, what the outside world answers
  there. A loop is a structural recursion over that list; when the list ends while the
  loop is still iterating, the result says so (\<open>StillLooping\<close>, \<open>Running\<close>) and is the
  state of the run at that point. Console output is not modelled.
\<close>

datatype exn = KeyboardInterrupt | Exception string

text \<open>The outcome of a Python call: it returns a value, raises, or has not returned yet.\<close>

datatype 'a result = Returns 'a | Raises exn | Running

text \<open>The calls a loop makes that the claims speak about, in the order they are made.\<close>

datatype event =
    SceneUpdate real
  | Update real
  | SceneRender
  | Render
  | Sleep real

text \<open>
  One executed iteration: the \<^verbatim>\<open>delta_time\<close> it computed, the accumulated time after
  the addition (\<^verbatim>\<open>demo_time\<close>, \<^verbatim>\<open>game_time\<close>), and the calls it made.
\<close>

record frame =
  delta_time :: real
  elapsed_time :: real
  calls :: "event list"

section \<open>basic\_demo.py: the demo loop\<close>

text \<open>The variables of the loop, lines 24 and 43--44.\<close>

record demo_state =
  last_time :: real
  demo_time :: real
  frame_count :: int

datatype demo_exit = Completed | StillLooping

text \<open>
  Lines 47--52: sample the clock, compute \<^verbatim>\<open>delta_time\<close>, advance \<^verbatim>\<open>last_time\<close>,
  \<^verbatim>\<open>demo_time\<close> and \<^verbatim>\<open>frame_count\<close>. The values of lines 55--57 are never used and
  are left out.
\<close>

definition demo_step :: "real \<Rightarrow> demo_state \<Rightarrow> real \<times> demo_state" where
  "demo_step current_time s =
     (let delta_time = current_time - last_time s
      in (delta_time,
          \<lparr>last_time = current_time,
           demo_time = demo_time s + delta_time,
           frame_count = frame_count s + 1\<rparr>))"

text \<open>
  Lines 46--74, with the literal \<^verbatim>\<open>30.0\<close> of line 69 as the parameter \<open>D\<close>. The list
  holds the answers of the calls of \<^verbatim>\<open>time.time()\<close> at line 47.
\<close>

fun demo_loop :: "real \<Rightarrow> demo_state \<Rightarrow> real list \<Rightarrow> frame list \<times> demo_exit" where
  "demo_loop D s [] = ([], StillLooping)"
| "demo_loop D s (current_time # clock) =
     (case demo_step current_time s of
        (dt, s') \<Rightarrow>
          if demo_time s' > D
          then ([\<lparr>delta_time = dt, elapsed_time = demo_time s', calls = []\<rparr>], Completed)
          else (case demo_loop D s' clock of
                  (frames, r) \<Rightarrow>
                    (\<lparr>delta_time = dt, elapsed_time = demo_time s',
                      calls = [Sleep 0.016]\<rparr> # frames, r)))"

text \<open>
  Lines 24 and 43--74: the first reading is the one of line 43, taken before the loop.
\<close>

definition demo_with :: "real \<Rightarrow> real list \<Rightarrow> frame list \<times> demo_exit" where
  "demo_with D clock =
     (case clock of
        [] \<Rightarrow> ([], StillLooping)
      | t0 # rest \<Rightarrow>
          demo_loop D \<lparr>last_time = t0, demo_time = 0, frame_count = 0\<rparr> rest)"

definition basic_demo :: "real list \<Rightarrow> frame list \<times> demo_exit" where
  "basic_demo clock = demo_with 30 clock"

text \<open>
  The states the loop body produces from successive readings, whether or not the exit
  test of line 69 would have stopped the loop in between.
\<close>

fun demo_states :: "demo_state \<Rightarrow> real list \<Rightarrow> demo_state list" where
  "demo_states s [] = []"
| "demo_states s (current_time # clock) =
     (let s' = snd (demo_step current_time s) in s' # demo_states s' clock)"

section \<open>platformer\_game.py: player, game and game loop\<close>

text \<open>
  \<^verbatim>\<open>engine.Vector3\<close> belongs to the native module; the code reads and writes its
  three float attributes \<^verbatim>\<open>x\<close>, \<^verbatim>\<open>y\<close>, \<^verbatim>\<open>z\<close> only.
\<close>

record Vector3 =
  vec_x :: real
  vec_y :: real
  vec_z :: real

record Player =
  position :: Vector3
  velocity :: Vector3
  size_p :: Vector3
  on_ground :: bool
  speed :: real
  jump_force :: real

text \<open>
  The input manager is a native object; the code asks it \<^verbatim>\<open>is_key_down(code)\<close> and
  \<^verbatim>\<open>is_key_pressed(code)\<close>, with \<^verbatim>\<open>code = ord(c)\<close>.
\<close>

record input_manager =
  is_key_down :: "nat \<Rightarrow> bool"
  is_key_pressed :: "nat \<Rightarrow> bool"

definition ord :: "char \<Rightarrow> nat" where
  "ord c = of_char c"

definition Player_init :: Player where
  "Player_init =
     \<lparr>position = \<lparr>vec_x = 0, vec_y = 0, vec_z = 0\<rparr>,
      velocity = \<lparr>vec_x = 0, vec_y = 0, vec_z = 0\<rparr>,
      size_p = \<lparr>vec_x = 1, vec_y = 1, vec_z = 1\<rparr>,
      on_ground = False,
      speed = 8,
      jump_force = 12\<rparr>"

text \<open>\<^verbatim>\<open>Player.update\<close>, lines 20--26: horizontal movement.\<close>

definition horizontal_movement :: "input_manager \<Rightarrow> Player \<Rightarrow> Player" where
  "horizontal_movement im p =
     (if is_key_down im (ord CHR ''A'')
      then p\<lparr>velocity := (velocity p)\<lparr>vec_x := - speed p\<rparr>\<rparr>
      else if is_key_down im (ord CHR ''D'')
      then p\<lparr>velocity := (velocity p)\<lparr>vec_x := speed p\<rparr>\<rparr>
      else p\<lparr>velocity := (velocity p)\<lparr>vec_x := vec_x (velocity p) * 0.8\<rparr>\<rparr>)"

text \<open>Lines 28--31: jumping.\<close>

definition jumping :: "input_manager \<Rightarrow> Player \<Rightarrow> Player" where
  "jumping im p =
     (if is_key_pressed im (ord CHR '' '') \<and> on_ground p
      then p\<lparr>velocity := (velocity p)\<lparr>vec_y := jump_force p\<rparr>, on_ground := False\<rparr>
      else p)"

text \<open>Lines 33--34: gravity.\<close>

definition gravity :: "real \<Rightarrow> Player \<Rightarrow> Player" where
  "gravity dt p = p\<lparr>velocity := (velocity p)\<lparr>vec_y := vec_y (velocity p) - 25 * dt\<rparr>\<rparr>"

text \<open>Lines 36--38: update position.\<close>

definition update_position :: "real \<Rightarrow> Player \<Rightarrow> Player" where
  "update_position dt p =
     p\<lparr>position := (position p)
         \<lparr>vec_x := vec_x (position p) + vec_x (velocity p) * dt,
          vec_y := vec_y (position p) + vec_y (velocity p) * dt\<rparr>\<rparr>"

text \<open>Lines 40--44: ground collision. The test of line 41 is \<open>ground_hit\<close>.\<close>

definition ground_hit :: "Player \<Rightarrow> bool" where
  "ground_hit p = (vec_y (position p) \<le> 0)"

definition ground_collision :: "Player \<Rightarrow> Player" where
  "ground_collision p =
     (if ground_hit p
      then p\<lparr>position := (position p)\<lparr>vec_y := 0\<rparr>,
             velocity := (velocity p)\<lparr>vec_y := 0\<rparr>,
             on_ground := True\<rparr>
      else p)"

text \<open>The player as it is when line 41 is reached.\<close>

definition before_collision :: "real \<Rightarrow> input_manager \<Rightarrow> Player \<Rightarrow> Player" where
  "before_collision dt im p =
     update_position dt (gravity dt (jumping im (horizontal_movement im p)))"

definition Player_update :: "real \<Rightarrow> input_manager \<Rightarrow> Player \<Rightarrow> Player" where
  "Player_update dt im p = ground_collision (before_collision dt im p)"

record Platform =
  plat_position :: Vector3
  plat_size :: Vector3

definition Platform_init :: "real \<Rightarrow> real \<Rightarrow> real \<Rightarrow> real \<Rightarrow> real \<Rightarrow> real \<Rightarrow> Platform" where
  "Platform_init px py pz w h d =
     \<lparr>plat_position = \<lparr>vec_x = px, vec_y = py, vec_z = pz\<rparr>,
      plat_size = \<lparr>vec_x = w, vec_y = h, vec_z = d\<rparr>\<rparr>"

record PlatformerGame =
  player :: Player
  platforms :: "Platform list"
  camera_offset :: Vector3
  score :: int
  game_time :: real

text \<open>\<^verbatim>\<open>create_level\<close>: \<^verbatim>\<open>range(-20, 21, 4)\<close> is \<open>-20, -16, \<dots>, 20\<close>.\<close>

definition create_level :: "Platform list" where
  "create_level =
     map (\<lambda>k. Platform_init (real_of_int (-20 + 4 * int k)) (-2) 0 4 1 4) [0 ..< 11]
     @ [Platform_init 8 3 0 4 0.5 4,
        Platform_init 16 6 0 4 0.5 4,
        Platform_init (-8) 4 0 4 0.5 4,
        Platform_init (-16) 7 0 4 0.5 4]"

definition PlatformerGame_init :: PlatformerGame where
  "PlatformerGame_init =
     \<lparr>player = Player_init,
      platforms = create_level,
      camera_offset = \<lparr>vec_x = 0, vec_y = 5, vec_z = -10\<rparr>,
      score = 0,
      game_time = 0\<rparr>"

text \<open>Python's \<^verbatim>\<open>int(f)\<close> on a float truncates toward zero.\<close>

definition py_int :: "real \<Rightarrow> int" where
  "py_int r = (if 0 \<le> r then \<lfloor>r\<rfloor> else \<lceil>r\<rceil>)"

text \<open>Line 94: the test of the respawn branch.\<close>

definition fell :: "Player \<Rightarrow> bool" where
  "fell p = (vec_y (position p) < -10)"

text \<open>Lines 86--96 of \<^verbatim>\<open>PlatformerGame.update\<close>, once the input manager is there.\<close>

definition update_with_input :: "real \<Rightarrow> input_manager \<Rightarrow> PlatformerGame \<Rightarrow> PlatformerGame" where
  "update_with_input dt im g =
     (let p = Player_update dt im (player g);
          height_score = max 0 (py_int (vec_y (position p) * 10));
          g' = g\<lparr>player := p, score := max (score g) height_score\<rparr>
      in if fell p
         then g'\<lparr>player := p\<lparr>position := \<lparr>vec_x = 0, vec_y = 0, vec_z = 0\<rparr>,
                               velocity := \<lparr>vec_x = 0, vec_y = 0, vec_z = 0\<rparr>\<rparr>\<rparr>
         else g')"

text \<open>
  \<^verbatim>\<open>PlatformerGame.update\<close>, lines 80--96. \<^verbatim>\<open>engine.get_input()\<close> is native: it hands
  over an input manager or raises, after \<^verbatim>\<open>game_time\<close> has been advanced. The game is
  returned as the call leaves it, with the exception if one was raised.
\<close>

definition PlatformerGame_update ::
  "real \<Rightarrow> exn + input_manager \<Rightarrow> PlatformerGame \<Rightarrow> PlatformerGame \<times> exn option" where
  "PlatformerGame_update dt inp g =
     (let g1 = g\<lparr>game_time := game_time g + dt\<rparr>
      in case inp of
           Inl e \<Rightarrow> (g1, Some e)
         | Inr im \<Rightarrow> (update_with_input dt im g1, None))"

text \<open>
  What the outside world answers during one evaluation of the loop condition of
  \<^verbatim>\<open>main\<close> and the iteration that follows: \<^verbatim>\<open>game_engine.is_running()\<close>,
  \<^verbatim>\<open>time.time()\<close>, \<^verbatim>\<open>engine.get_input()\<close>, whether the rendering of lines 158--162
  raises, and whether \<^verbatim>\<open>time.sleep\<close> is interrupted.
\<close>

record tick =
  t_is_running :: bool
  t_time :: real
  t_get_input :: "exn + input_manager"
  t_render :: "exn option"
  t_sleep :: "exn option"

text \<open>Line 165: the argument of \<^verbatim>\<open>time.sleep\<close>.\<close>

definition limit_fps :: "real \<Rightarrow> real" where
  "limit_fps dt = max 0 (1 / 60 - dt)"

text \<open>
  The \<^verbatim>\<open>while\<close> statement of \<^verbatim>\<open>main\<close>, lines 148--165; \<open>clock\<close> is the variable of
  line 145.
\<close>

fun main_loop ::
  "real \<Rightarrow> PlatformerGame \<Rightarrow> tick list \<Rightarrow> frame list \<times> PlatformerGame \<times> unit result" where
  "main_loop clock game [] = ([], game, Running)"
| "main_loop clock game (t # ts) =
     (if \<not> t_is_running t then ([], game, Returns ())
      else
        let current_time = t_time t;
            dt = current_time - clock
        in case PlatformerGame_update dt (t_get_input t) game of
             (game', Some e) \<Rightarrow>
               ([\<lparr>delta_time = dt, elapsed_time = game_time game', calls = [Update dt]\<rparr>],
                game', Raises e)
           | (game', None) \<Rightarrow>
               (case t_render t of
                  Some e \<Rightarrow>
                    ([\<lparr>delta_time = dt, elapsed_time = game_time game',
                       calls = [Update dt, Render]\<rparr>], game', Raises e)
                | None \<Rightarrow>
                    (case t_sleep t of
                       Some e \<Rightarrow>
                         ([\<lparr>delta_time = dt, elapsed_time = game_time game',
                            calls = [Update dt, Render, Sleep (limit_fps dt)]\<rparr>],
                          game', Raises e)
                     | None \<Rightarrow>
                         (case main_loop current_time game' ts of
                            (frames, g, r) \<Rightarrow>
                              (\<lparr>delta_time = dt, elapsed_time = game_time game',
                                calls = [Update dt, Render, Sleep (limit_fps dt)]\<rparr> # frames,
                               g, r)))))"

text \<open>
  \<^verbatim>\<open>main\<close>, lines 128--172: \<open>init_ok\<close> is the answer of \<^verbatim>\<open>game_engine.initialize()\<close>,
  \<open>clock0\<close> the reading of line 145. Only \<^verbatim>\<open>KeyboardInterrupt\<close> is caught (line 167);
  after it, as after a normal end of the loop, the engine is shut down and \<^verbatim>\<open>main\<close>
  returns.
\<close>

definition main :: "bool \<Rightarrow> real \<Rightarrow> tick list \<Rightarrow> frame list \<times> unit result" where
  "main init_ok clock0 ticks =
     (if \<not> init_ok then ([], Returns ())
      else case main_loop clock0 PlatformerGame_init ticks of
             (frames, g, r) \<Rightarrow>
               (frames,
                case r of
                  Raises KeyboardInterrupt \<Rightarrow> Returns ()
                | Raises e \<Rightarrow> Raises e
                | Returns u \<Rightarrow> Returns ()
                | Running \<Rightarrow> Running))"

section \<open>nexus\_api.py: GameApplication.run\<close>

text \<open>
  The fields of \<^verbatim>\<open>GameApplication\<close> that \<^verbatim>\<open>run\<close> reads: whether a scene is set
  (\<^verbatim>\<open>current_scene\<close> is tested for truth only) and the flag \<^verbatim>\<open>running\<close>. The engine is
  native; its answers are inputs.
\<close>

record GameApplication =
  title :: string
  width :: int
  height :: int
  current_scene :: "string option"
  running :: bool

definition GameApplication_init :: GameApplication where
  "GameApplication_init =
     \<lparr>title = ''Nexus Game'', width = 1280, height = 720,
      current_scene = None, running = False\<rparr>"

text \<open>
  A call of an overridable method, as the loop sees it: it raises, or it returns after
  having changed the application object (a subclass may call \<^verbatim>\<open>shutdown\<close> or
  \<^verbatim>\<open>set_scene\<close> there, and so may any other thread while the call lasts).
\<close>

type_synonym callback = "exn + (GameApplication \<Rightarrow> GameApplication)"

text \<open>The methods of the base class, lines 127--133 and 22--28: they do nothing.\<close>

definition pass :: callback where
  "pass = Inr (\<lambda>app. app)"

text \<open>\<^verbatim>\<open>shutdown\<close>, lines 117--121, as far as the application object goes.\<close>

definition shutdown :: "GameApplication \<Rightarrow> GameApplication" where
  "shutdown app = app\<lparr>running := False\<rparr>"

definition set_scene :: "string \<Rightarrow> GameApplication \<Rightarrow> GameApplication" where
  "set_scene scene app = app\<lparr>current_scene := Some scene\<rparr>"

text \<open>
  \<^verbatim>\<open>initialize\<close> of the base class, lines 69--82; \<open>engine_ok\<close> is the answer of
  \<^verbatim>\<open>self.engine.initialize()\<close>.
\<close>

definition initialize :: "bool \<Rightarrow> GameApplication \<Rightarrow> exn + bool \<times> GameApplication" where
  "initialize engine_ok app =
     (if \<not> engine_ok then Inl (Exception ''Failed to initialize Nexus Engine'')
      else Inr (True, app\<lparr>running := True\<rparr>))"

text \<open>
  What the outside world answers during one evaluation of the loop condition of
  \<^verbatim>\<open>run\<close> and the iteration that follows: \<^verbatim>\<open>engine.is_running()\<close>,
  \<^verbatim>\<open>engine.get_delta_time()\<close>, the four callbacks and \<^verbatim>\<open>time.sleep\<close>.
\<close>

record run_tick =
  r_is_running :: bool
  r_delta_time :: real
  r_scene_update :: callback
  r_update :: callback
  r_scene_render :: callback
  r_render :: callback
  r_sleep :: callback

text \<open>
  A sequence of guarded calls: each is made when its guard holds of the application
  object as it is then; the first call that raises ends the sequence.
\<close>

fun run_calls ::
  "((GameApplication \<Rightarrow> bool) \<times> event \<times> callback) list \<Rightarrow> GameApplication
   \<Rightarrow> event list \<times> (exn + GameApplication)" where
  "run_calls [] app = ([], Inr app)"
| "run_calls ((guard, ev, cb) # cs) app =
     (if guard app
      then (case cb of
              Inl e \<Rightarrow> ([ev], Inl e)
            | Inr f \<Rightarrow> (case run_calls cs (f app) of (evs, r) \<Rightarrow> (ev # evs, r)))
      else run_calls cs app)"

definition has_scene :: "GameApplication \<Rightarrow> bool" where
  "has_scene app = (current_scene app \<noteq> None)"

text \<open>The body of the loop, lines 94--112.\<close>

definition run_body :: "run_tick \<Rightarrow> GameApplication \<Rightarrow> event list \<times> (exn + GameApplication)" where
  "run_body t app =
     (let dt = r_delta_time t
      in run_calls
           [(has_scene, SceneUpdate dt, r_scene_update t),
            (\<lambda>_. True, Update dt, r_update t),
            (has_scene, SceneRender, r_scene_render t),
            (\<lambda>_. True, Render, r_render t),
            (\<lambda>_. True, Sleep 0.001, r_sleep t)]
           app)"

text \<open>
  Lines 93--115: the \<^verbatim>\<open>while\<close> statement, then \<^verbatim>\<open>shutdown\<close> and \<^verbatim>\<open>return True\<close>. The
  result lists the calls of every iteration that was started.
\<close>

fun run_loop ::
  "GameApplication \<Rightarrow> run_tick list \<Rightarrow> event list list \<times> GameApplication \<times> bool result" where
  "run_loop app [] = ([], app, Running)"
| "run_loop app (t # ts) =
     (if r_is_running t \<and> running app
      then (case run_body t app of
              (evs, Inl e) \<Rightarrow> ([evs], app, Raises e)
            | (evs, Inr app') \<Rightarrow>
                (case run_loop app' ts of (frames, a, r) \<Rightarrow> (evs # frames, a, r)))
      else ([], shutdown app, Returns True))"

text \<open>
  \<^verbatim>\<open>run\<close>, lines 84--115. \<^verbatim>\<open>self.initialize()\<close> is dispatched on the object, so the
  method is a parameter; \<open>initialize engine_ok\<close> is the one of the base class.
\<close>

definition run ::
  "(GameApplication \<Rightarrow> exn + bool \<times> GameApplication) \<Rightarrow> run_tick list \<Rightarrow> GameApplication
   \<Rightarrow> event list list \<times> GameApplication \<times> bool result" where
  "run init ticks app =
     (if \<not> running app
      then (case init app of
              Inl e \<Rightarrow> ([], app, Raises e)
            | Inr (ok, app') \<Rightarrow>
                if \<not> ok then ([], app', Returns False) else run_loop app' ticks)
      else run_loop app ticks)"

section \<open>Predicates on the calls of an iteration\<close>

fun is_update :: "event \<Rightarrow> bool" where
  "is_update (SceneUpdate dt) = True"
| "is_update (Update dt) = True"
| "is_update ev = False"

fun is_render :: "event \<Rightarrow> bool" where
  "is_render SceneRender = True"
| "is_render Render = True"
| "is_render ev = False"

fun is_sleep :: "event \<Rightarrow> bool" where
  "is_sleep (Sleep d) = True"
| "is_sleep ev = False"

text \<open>
  Update before render, for the calls of one iteration: if a render call was made, the
  application's update had been called before the first render call; and from the first
  render call on, no update call is made.
\<close>

definition update_before_render :: "event list \<Rightarrow> bool" where
  "update_before_render evs \<longleftrightarrow>
     ((\<exists>e\<in>set evs. is_render e) \<longrightarrow>
        (\<exists>dt. Update dt \<in> set (takeWhile (\<lambda>e. \<not> is_render e) evs)))
     \<and> (\<forall>e\<in>set (dropWhile (\<lambda>e. \<not> is_render e) evs). \<not> is_update e)"

section \<open>The pacing rule in the words of the specification\<close>

text \<open>
  Step 7 of the specification's \<^verbatim>\<open>run\<close>: the remaining budget is
  \<^verbatim>\<open>target_frame_seconds\<close> minus the time the iteration has consumed since its clock
  sample; the loop sleeps for the budget if it is positive and does not sleep otherwise.
\<close>

definition spec_remaining_budget :: "real \<Rightarrow> real \<Rightarrow> real" where
  "spec_remaining_budget target_frame_seconds consumed = target_frame_seconds - consumed"

definition spec_pacing :: "real \<Rightarrow> real \<Rightarrow> event list" where
  "spec_pacing target_frame_seconds consumed =
     (if 0 < spec_remaining_budget target_frame_seconds consumed
      then [Sleep (spec_remaining_budget target_frame_seconds consumed)]
      else [])"

section \<open>Inputs used in the examples\<close>

definition no_keys :: input_manager where
  "no_keys = \<lparr>is_key_down = (\<lambda>k. False), is_key_pressed = (\<lambda>k. False)\<rparr>"

text \<open>An iteration of the platformer loop in which no key is held and nothing fails.\<close>

definition idle_tick :: "real \<Rightarrow> tick" where
  "idle_tick t =
     \<lparr>t_is_running = True, t_time = t, t_get_input = Inr no_keys,
      t_render = None, t_sleep = None\<rparr>"

text \<open>
  A simulated clock for the platformer loop: the loop condition is evaluated at time
  \<open>now\<close>, the callbacks of the iteration take \<open>work\<close> seconds, nothing else takes time,
  and \<^verbatim>\<open>time.sleep\<close> takes exactly the time it is asked for. \<open>clock\<close> is the previous
  reading.
\<close>

fun sim_ticks :: "real \<Rightarrow> real \<Rightarrow> real list \<Rightarrow> tick list" where
  "sim_ticks now clock [] = []"
| "sim_ticks now clock (work # works) =
     idle_tick now # sim_ticks (now + work + limit_fps (now - clock)) now works"

text \<open>
  For \<^verbatim>\<open>GameApplication.run\<close>: an iteration in which the engine is running and every
  callback is the one of the base class; and the answer of an engine that has stopped.
\<close>

definition plain_tick :: "real \<Rightarrow> run_tick" where
  "plain_tick dt =
     \<lparr>r_is_running = True, r_delta_time = dt,
      r_scene_update = pass, r_update = pass,
      r_scene_render = pass, r_render = pass, r_sleep = pass\<rparr>"

definition stopped_tick :: run_tick where
  "stopped_tick = (plain_tick 0)\<lparr>r_is_running := False\<rparr>"

section \<open>Evaluation\<close>

lemmas eval_simps =
  basic_demo_def demo_with_def demo_step_def Let_def
  main_def idle_tick_def PlatformerGame_update_def update_with_input_def
  Player_update_def ground_collision_def ground_hit_def before_collision_def
  update_position_def gravity_def jumping_def horizontal_movement_def fell_def
  no_keys_def Player_init_def PlatformerGame_init_def ord_def py_int_def limit_fps_def

lemmas run_simps =
  run_def run_body_def initialize_def shutdown_def set_scene_def has_scene_def pass_def
  plain_tick_def stopped_tick_def GameApplication_init_def

section \<open>Facts about the demo loop\<close>


lemma demo_loop_length: "length (fst (demo_loop D s cs)) \<le> length cs"
proof (induction cs arbitrary: s)
  case Nil
  then show ?case by simp
next
  case (Cons c cs)
  obtain dt s' where st: "demo_step c s = (dt, s')" by (cases "demo_step c s")
  obtain frames r where rec: "demo_loop D s' cs = (frames, r)" by (cases "demo_loop D s' cs")
  from Cons.IH [of s'] st rec show ?case by simp
qed

lemma demo_loop_delta:
  "n < length (fst (demo_loop D s cs)) \<Longrightarrow>
   delta_time (fst (demo_loop D s cs) ! n) = (last_time s # cs) ! Suc n - (last_time s # cs) ! n"
proof (induction cs arbitrary: s n)
  case Nil
  then show ?case by simp
next
  case (Cons c cs)
  obtain dt s' where st: "demo_step c s = (dt, s')" by (cases "demo_step c s")
  then have dt: "dt = c - last_time s" and ls: "last_time s' = c"
    by (auto simp: demo_step_def Let_def)
  show ?case
  proof (cases "D < demo_time s'")
    case True
    with Cons.prems st dt show ?thesis by simp
  next
    case False
    obtain frames r where rec: "demo_loop D s' cs = (frames, r)" by (cases "demo_loop D s' cs")
    show ?thesis
    proof (cases n)
      case 0
      with False st rec dt show ?thesis by simp
    next
      case (Suc m)
      with Cons.prems False st rec have "m < length (fst (demo_loop D s' cs))" by simp
      from Cons.IH [OF this] ls rec Suc False st show ?thesis by simp
    qed
  qed
qed

lemma demo_loop_elapsed:
  "n < length (fst (demo_loop D s cs)) \<Longrightarrow>
   elapsed_time (fst (demo_loop D s cs) ! n) =
     demo_time s + sum_list (map delta_time (take (Suc n) (fst (demo_loop D s cs))))"
proof (induction cs arbitrary: s n)
  case Nil
  then show ?case by simp
next
  case (Cons c cs)
  obtain dt s' where st: "demo_step c s = (dt, s')" by (cases "demo_step c s")
  then have dm: "demo_time s' = demo_time s + dt"
    by (auto simp: demo_step_def Let_def)
  show ?case
  proof (cases "D < demo_time s'")
    case True
    with Cons.prems st dm show ?thesis by simp
  next
    case False
    obtain frames r where rec: "demo_loop D s' cs = (frames, r)" by (cases "demo_loop D s' cs")
    show ?thesis
    proof (cases n)
      case 0
      with False st rec dm show ?thesis by simp
    next
      case (Suc m)
      with Cons.prems False st rec have "m < length (fst (demo_loop D s' cs))" by simp
      from Cons.IH [OF this] dm rec Suc False st show ?thesis by simp
    qed
  qed
qed

lemma demo_loop_states:
  "n < length (fst (demo_loop D s cs)) \<Longrightarrow>
   elapsed_time (fst (demo_loop D s cs) ! n) = demo_time (demo_states s cs ! n)"
proof (induction cs arbitrary: s n)
  case Nil
  then show ?case by simp
next
  case (Cons c cs)
  obtain dt s' where st: "demo_step c s = (dt, s')" by (cases "demo_step c s")
  show ?case
  proof (cases "D < demo_time s'")
    case True
    with Cons.prems st show ?thesis by simp
  next
    case False
    obtain frames r where rec: "demo_loop D s' cs = (frames, r)" by (cases "demo_loop D s' cs")
    show ?thesis
    proof (cases n)
      case 0
      with False st rec show ?thesis by simp
    next
      case (Suc m)
      with Cons.prems False st rec have "m < length (fst (demo_loop D s' cs))" by simp
      from Cons.IH [OF this] rec Suc False st show ?thesis by simp
    qed
  qed
qed

lemma demo_states_length: "length (demo_states s cs) = length cs"
  by (induction cs arbitrary: s) (auto simp: Let_def)

lemma demo_loop_first_exceed:
  "k < length cs \<Longrightarrow> D < demo_time (demo_states s cs ! k) \<Longrightarrow>
   (\<forall>j<k. \<not> D < demo_time (demo_states s cs ! j)) \<Longrightarrow>
   snd (demo_loop D s cs) = Completed \<and> length (fst (demo_loop D s cs)) = Suc k"
proof (induction cs arbitrary: s k)
  case Nil
  then show ?case by simp
next
  case (Cons c cs)
  obtain dt s' where st: "demo_step c s = (dt, s')" by (cases "demo_step c s")
  show ?case
  proof (cases k)
    case 0
    with Cons.prems st show ?thesis by simp
  next
    case (Suc m)
    with Cons.prems(3) have nex: "\<not> D < demo_time s'" using st by (auto simp: Let_def)
    have 1: "m < length cs" using Cons.prems Suc by simp
    have 2: "D < demo_time (demo_states s' cs ! m)" using Cons.prems(2) Suc st by (simp add: Let_def)
    have 3: "\<forall>j<m. \<not> D < demo_time (demo_states s' cs ! j)"
    proof (intro allI impI)
      fix j assume "j < m"
      then have "Suc j < k" using Suc by simp
      with Cons.prems(3) have "\<not> D < demo_time (demo_states s (c # cs) ! Suc j)" by blast
      then show "\<not> D < demo_time (demo_states s' cs ! j)" using st by (simp add: Let_def)
    qed
    obtain frames r where rec: "demo_loop D s' cs = (frames, r)" by (cases "demo_loop D s' cs")
    from Cons.IH [OF 1 2 3] nex st Suc rec show ?thesis
      by simp
  qed
qed

lemma demo_loop_never_exceed:
  "(\<forall>j<length cs. \<not> D < demo_time (demo_states s cs ! j)) \<Longrightarrow>
   snd (demo_loop D s cs) = StillLooping \<and> length (fst (demo_loop D s cs)) = length cs"
proof (induction cs arbitrary: s)
  case Nil
  then show ?case by simp
next
  case (Cons c cs)
  obtain dt s' where st: "demo_step c s = (dt, s')" by (cases "demo_step c s")
  from Cons.prems have nex: "\<not> D < demo_time s'" using st by (auto simp: Let_def)
  have 3: "\<forall>j<length cs. \<not> D < demo_time (demo_states s' cs ! j)"
  proof (intro allI impI)
    fix j assume "j < length cs"
    then have "Suc j < length (c # cs)" by simp
    with Cons.prems have "\<not> D < demo_time (demo_states s (c # cs) ! Suc j)" by blast
    then show "\<not> D < demo_time (demo_states s' cs ! j)" using st by (simp add: Let_def)
  qed
  obtain frames r where rec: "demo_loop D s' cs = (frames, r)" by (cases "demo_loop D s' cs")
  from Cons.IH [OF 3] nex st rec show ?case by simp
qed

section \<open>Facts about the platformer loop\<close>


lemma game_time_update:
  "game_time (fst (PlatformerGame_update dt inp g)) = game_time g + dt"
  by (cases inp) (simp_all add: PlatformerGame_update_def update_with_input_def Let_def)

lemma main_loop_delta:
  "n < length (fst (main_loop clock game ticks)) \<Longrightarrow>
   delta_time (fst (main_loop clock game ticks) ! n) =
     (clock # map t_time ticks) ! Suc n - (clock # map t_time ticks) ! n"
proof (induction ticks arbitrary: clock game n)
  case Nil
  then show ?case by simp
next
  case (Cons t ts)
  obtain game' ex where up: "PlatformerGame_update (t_time t - clock) (t_get_input t) game = (game', ex)"
    by (cases "PlatformerGame_update (t_time t - clock) (t_get_input t) game")
  obtain frames g r where rec: "main_loop (t_time t) game' ts = (frames, g, r)"
    by (cases "main_loop (t_time t) game' ts")
  show ?case
  proof (cases n)
    case 0
    with Cons.prems up rec show ?thesis
      by (simp add: Let_def split: if_splits option.splits)
  next
    case (Suc m)
    with Cons.prems up rec have "m < length (fst (main_loop (t_time t) game' ts))"
      by (simp add: Let_def split: if_splits option.splits)
    from Cons.IH [OF this] Cons.prems up rec Suc show ?thesis
      by (simp add: Let_def split: if_splits option.splits)
  qed
qed

lemma main_loop_elapsed:
  "n < length (fst (main_loop clock game ticks)) \<Longrightarrow>
   elapsed_time (fst (main_loop clock game ticks) ! n) =
     game_time game + sum_list (map delta_time (take (Suc n) (fst (main_loop clock game ticks))))"
proof (induction ticks arbitrary: clock game n)
  case Nil
  then show ?case by simp
next
  case (Cons t ts)
  obtain game' ex where up: "PlatformerGame_update (t_time t - clock) (t_get_input t) game = (game', ex)"
    by (cases "PlatformerGame_update (t_time t - clock) (t_get_input t) game")
  have gt: "game_time game' = game_time game + (t_time t - clock)"
    using game_time_update [of "t_time t - clock" "t_get_input t" game] up by simp
  obtain frames g r where rec: "main_loop (t_time t) game' ts = (frames, g, r)"
    by (cases "main_loop (t_time t) game' ts")
  show ?case
  proof (cases n)
    case 0
    with Cons.prems up rec gt show ?thesis
      by (simp add: Let_def split: if_splits option.splits)
  next
    case (Suc m)
    with Cons.prems up rec have "m < length (fst (main_loop (t_time t) game' ts))"
      by (simp add: Let_def split: if_splits option.splits)
    from Cons.IH [OF this] Cons.prems up rec Suc gt show ?thesis
      by (simp add: Let_def split: if_splits option.splits)
  qed
qed

lemma main_loop_final:
  "main_loop clock game ticks = (frames, g, r) \<Longrightarrow>
   game_time g = game_time game + sum_list (map delta_time frames)"
proof (induction ticks arbitrary: clock game frames g r)
  case Nil
  then show ?case by simp
next
  case (Cons t ts)
  obtain game' ex where up: "PlatformerGame_update (t_time t - clock) (t_get_input t) game = (game', ex)"
    by (cases "PlatformerGame_update (t_time t - clock) (t_get_input t) game")
  have gt: "game_time game' = game_time game + (t_time t - clock)"
    using game_time_update [of "t_time t - clock" "t_get_input t" game] up by simp
  obtain frames' g' r' where rec: "main_loop (t_time t) game' ts = (frames', g', r')"
    by (cases "main_loop (t_time t) game' ts")
  from Cons.IH [OF rec] Cons.prems up rec gt show ?case
    by (auto simp add: Let_def split: if_splits option.splits)
qed

lemma main_loop_calls:
  "fr \<in> set (fst (main_loop clock game ticks)) \<Longrightarrow>
   calls fr = [Update (delta_time fr)]
   \<or> calls fr = [Update (delta_time fr), Render]
   \<or> calls fr = [Update (delta_time fr), Render, Sleep (limit_fps (delta_time fr))]"
proof (induction ticks arbitrary: clock game)
  case Nil
  then show ?case by simp
next
  case (Cons t ts)
  obtain game' ex where up: "PlatformerGame_update (t_time t - clock) (t_get_input t) game = (game', ex)"
    by (cases "PlatformerGame_update (t_time t - clock) (t_get_input t) game")
  obtain frames' g' r' where rec: "main_loop (t_time t) game' ts = (frames', g', r')"
    by (cases "main_loop (t_time t) game' ts")
  from Cons.IH [of "t_time t" game'] Cons.prems up rec show ?case
    by (auto simp add: Let_def split: if_splits option.splits)
qed

lemma main_frames: "fst (main True clock0 ticks) = fst (main_loop clock0 PlatformerGame_init ticks)"
  by (simp add: main_def split: prod.splits)

lemma main_frames_False: "fst (main False clock0 ticks) = []"
  by (simp add: main_def)

section \<open>Facts about whole runs\<close>

lemma basic_demo_frames:
  "fst (basic_demo (t0 # rest)) =
     fst (demo_loop 30 \<lparr>last_time = t0, demo_time = 0, frame_count = 0\<rparr> rest)"
  by (simp add: basic_demo_def demo_with_def)

lemma basic_demo_Nil: "fst (basic_demo []) = []"
  by (simp add: basic_demo_def demo_with_def)

lemma main_loop_length: "length (fst (main_loop clock game ticks)) \<le> length ticks"
proof (induction ticks arbitrary: clock game)
  case Nil
  then show ?case by simp
next
  case (Cons t ts)
  obtain game' ex where up: "PlatformerGame_update (t_time t - clock) (t_get_input t) game = (game', ex)"
    by (cases "PlatformerGame_update (t_time t - clock) (t_get_input t) game")
  obtain frames g r where rec: "main_loop (t_time t) game' ts = (frames, g, r)"
    by (cases "main_loop (t_time t) game' ts")
  from Cons.IH [of "t_time t" game'] up rec show ?case
    by (simp add: Let_def split: option.splits)
qed

lemma basic_demo_elapsed:
  assumes "n < length (fst (basic_demo clock))"
  shows "elapsed_time (fst (basic_demo clock) ! n) =
           sum_list (map delta_time (take (Suc n) (fst (basic_demo clock))))"
    and "delta_time (fst (basic_demo clock) ! n) = clock ! Suc n - clock ! n"
    and "Suc n < length clock"
proof -
  from assms obtain t0 rest where c: "clock = t0 # rest"
    by (cases clock) (simp_all add: basic_demo_Nil)
  let ?s = "\<lparr>last_time = t0, demo_time = 0, frame_count = 0\<rparr>"
  from assms c have n': "n < length (fst (demo_loop 30 ?s rest))"
    by (simp add: basic_demo_frames)
  from demo_loop_elapsed [OF n'] c
  show "elapsed_time (fst (basic_demo clock) ! n) =
        sum_list (map delta_time (take (Suc n) (fst (basic_demo clock))))"
    by (simp add: basic_demo_frames)
  from demo_loop_delta [OF n'] c
  show "delta_time (fst (basic_demo clock) ! n) = clock ! Suc n - clock ! n"
    by (simp add: basic_demo_frames)
  from n' demo_loop_length [of 30 ?s rest] c show "Suc n < length clock" by simp
qed

lemma main_elapsed:
  assumes "n < length (fst (main init_ok clock0 ticks))"
  shows "elapsed_time (fst (main init_ok clock0 ticks) ! n) =
           sum_list (map delta_time (take (Suc n) (fst (main init_ok clock0 ticks))))"
    and "delta_time (fst (main init_ok clock0 ticks) ! n) =
           (clock0 # map t_time ticks) ! Suc n - (clock0 # map t_time ticks) ! n"
    and "n < length ticks"
proof -
  from assms have ok: init_ok by (cases init_ok) (simp_all add: main_frames_False)
  from assms ok have n': "n < length (fst (main_loop clock0 PlatformerGame_init ticks))"
    by (simp add: main_frames)
  from main_loop_elapsed [OF n'] ok
  show "elapsed_time (fst (main init_ok clock0 ticks) ! n) =
        sum_list (map delta_time (take (Suc n) (fst (main init_ok clock0 ticks))))"
    by (simp add: main_frames PlatformerGame_init_def)
  from main_loop_delta [OF n'] ok
  show "delta_time (fst (main init_ok clock0 ticks) ! n) =
          (clock0 # map t_time ticks) ! Suc n - (clock0 # map t_time ticks) ! n"
    by (simp add: main_frames)
  from n' main_loop_length [of clock0 PlatformerGame_init ticks] show "n < length ticks" by simp
qed

lemma sorted_partial_sums:
  fixes ds :: "real list"
  assumes "\<forall>d \<in> set ds. 0 \<le> d"
  shows "i \<le> j \<Longrightarrow> sum_list (take i ds) \<le> sum_list (take j ds)"
proof (induction j)
  case 0
  then show ?case by simp
next
  case (Suc j)
  show ?case
  proof (cases "i = Suc j")
    case True
    then show ?thesis by simp
  next
    case False
    with Suc.prems have ij: "i \<le> j" by simp
    show ?thesis
    proof (cases "j < length ds")
      case True
      then have "0 \<le> ds ! j" using assms by simp
      with Suc.IH [OF ij] True show ?thesis
        by (simp add: take_Suc_conv_app_nth)
    next
      case False
      with Suc.IH [OF ij] show ?thesis by simp
    qed
  qed
qed

lemma frames_monotone:
  assumes el: "\<forall>n<length fs. elapsed_time (fs ! n) = a + sum_list (map delta_time (take (Suc n) fs))"
    and nn: "\<forall>n<length fs. 0 \<le> delta_time (fs ! n)"
  shows "sorted (map elapsed_time fs) \<and> (\<forall>fr\<in>set fs. a \<le> elapsed_time fr)"
proof -
  have pos: "\<forall>d\<in>set (map delta_time fs). 0 \<le> d"
    using nn by (auto simp: in_set_conv_nth)
  have "sorted (map elapsed_time fs)"
    unfolding sorted_iff_nth_mono
  proof (intro allI impI)
    fix i j assume ij: "i \<le> j" and j: "j < length (map elapsed_time fs)"
    then have "Suc i \<le> Suc j" by simp
    from sorted_partial_sums [OF pos this] ij j el
    show "map elapsed_time fs ! i \<le> map elapsed_time fs ! j"
      by (simp add: take_map)
  qed
  moreover have "\<forall>fr\<in>set fs. a \<le> elapsed_time fr"
  proof
    fix fr assume "fr \<in> set fs"
    then obtain n where n: "n < length fs" and fr: "fr = fs ! n"
      by (auto simp: in_set_conv_nth)
    have "0 \<le> Suc n" by simp
    from sorted_partial_sums [OF pos this] el n fr
    show "a \<le> elapsed_time fr" by (simp add: take_map)
  qed
  ultimately show ?thesis by blast
qed

lemma all_set_nth: "(\<forall>n<length xs. P (xs ! n)) \<Longrightarrow> \<forall>x\<in>set xs. P x"
  by (auto simp: in_set_conv_nth)

section \<open>Facts about GameApplication.run\<close>

lemma run_calls_subseq: "subseq (fst (run_calls cs app)) (map (\<lambda>c. fst (snd c)) cs)"
proof (induction cs arbitrary: app)
  case Nil
  then show ?case by simp
next
  case (Cons c cs)
  obtain guard ev cb where c: "c = (guard, ev, cb)" by (cases c)
  show ?case
  proof (cases "guard app")
    case False
    with c Cons.IH [of app] show ?thesis by (simp add: list_emb_Cons)
  next
    case True
    show ?thesis
    proof (cases cb)
      case (Inl e)
      with True c show ?thesis by simp
    next
      case (Inr f)
      obtain evs r where rec: "run_calls cs (f app) = (evs, r)" by (cases "run_calls cs (f app)")
      with Cons.IH [of "f app"] True c Inr show ?thesis by simp
    qed
  qed
qed

lemma run_body_subseq:
  "subseq (fst (run_body t app))
     [SceneUpdate (r_delta_time t), Update (r_delta_time t), SceneRender, Render, Sleep 0.001]"
  using run_calls_subseq [of "[(has_scene, SceneUpdate (r_delta_time t), r_scene_update t),
            (\<lambda>_. True, Update (r_delta_time t), r_update t),
            (has_scene, SceneRender, r_scene_render t),
            (\<lambda>_. True, Render, r_render t),
            (\<lambda>_. True, Sleep 0.001, r_sleep t)]" app]
  by (simp add: run_body_def Let_def)

lemma run_body_order: "update_before_render (fst (run_body t app))"
  by (auto simp: run_body_def Let_def update_before_render_def split: sum.splits prod.splits)

lemma run_loop_frames:
  "evs \<in> set (fst (run_loop app ticks)) \<Longrightarrow> \<exists>t a. t \<in> set ticks \<and> evs = fst (run_body t a)"
proof (induction ticks arbitrary: app)
  case Nil
  then show ?case by simp
next
  case (Cons t ts)
  obtain es r where body: "run_body t app = (es, r)" by (cases "run_body t app")
  show ?case
  proof (cases "r_is_running t \<and> running app")
    case False
    with Cons.prems show ?thesis by simp
  next
    case True
    show ?thesis
    proof (cases r)
      case (Inl e)
      with True body Cons.prems have "evs = fst (run_body t app)" by simp
      then show ?thesis by auto
    next
      case (Inr app')
      obtain fs a res where rec: "run_loop app' ts = (fs, a, res)" by (cases "run_loop app' ts")
      with True body Inr Cons.prems have "evs = es \<or> evs \<in> set (fst (run_loop app' ts))" by auto
      then show ?thesis
      proof
        assume "evs = es"
        with body have "evs = fst (run_body t app)" by simp
        then show ?thesis by auto
      next
        assume "evs \<in> set (fst (run_loop app' ts))"
        from Cons.IH [OF this] show ?thesis by auto
      qed
    qed
  qed
qed

lemma run_frames:
  "evs \<in> set (fst (run init ticks app)) \<Longrightarrow> \<exists>t a. t \<in> set ticks \<and> evs = fst (run_body t a)"
  using run_loop_frames
  by (fastforce simp: run_def split: if_splits sum.splits prod.splits)

lemma run_loop_append:
  "run_loop app pre = (fs, a, Running) \<Longrightarrow>
   run_loop app (pre @ rest) = (case run_loop a rest of (fs', a', r) \<Rightarrow> (fs @ fs', a', r))"
proof (induction pre arbitrary: app fs)
  case Nil
  then show ?case by (simp split: prod.splits)
next
  case (Cons t ts)
  obtain es r where body: "run_body t app = (es, r)" by (cases "run_body t app")
  from Cons.prems have en: "r_is_running t \<and> running app"
    by (auto split: if_splits)
  from Cons.prems en body obtain app' where r: "r = Inr app'"
    by (cases r) auto
  obtain fs0 a0 r0 where rec: "run_loop app' ts = (fs0, a0, r0)" by (cases "run_loop app' ts")
  with Cons.prems en body r have eq: "fs = es # fs0" "a0 = a" "r0 = Running" by auto
  from Cons.IH [of app' fs0] rec eq have
    "run_loop app' (ts @ rest) = (case run_loop a rest of (fs', a', r) \<Rightarrow> (fs0 @ fs', a', r))"
    by simp
  with en body r eq show ?case by (simp split: prod.splits)
qed

lemma run_loop_Running_length:
  "run_loop app pre = (fs, a, Running) \<Longrightarrow> length fs = length pre"
proof (induction pre arbitrary: app fs)
  case Nil
  then show ?case by simp
next
  case (Cons t ts)
  obtain es r where body: "run_body t app = (es, r)" by (cases "run_body t app")
  from Cons.prems have en: "r_is_running t \<and> running app"
    by (auto split: if_splits)
  from Cons.prems en body obtain app' where r: "r = Inr app'"
    by (cases r) auto
  obtain fs0 a0 r0 where rec: "run_loop app' ts = (fs0, a0, r0)" by (cases "run_loop app' ts")
  with Cons.prems en body r have eq: "fs = es # fs0" "a0 = a" "r0 = Running" by auto
  from Cons.IH [of app' fs0] rec eq show ?case by simp
qed

lemma run_loop_raise:
  "r_is_running t \<Longrightarrow> running a \<Longrightarrow> run_body t a = (evs, Inl e) \<Longrightarrow>
   run_loop a (t # ts) = ([evs], a, Raises e)"
  by simp

lemma run_loop_stop:
  "r_is_running t \<Longrightarrow> running a \<Longrightarrow> run_body t a = (evs, Inr a') \<Longrightarrow> \<not> running a' \<Longrightarrow>
   run_loop a (t # u # us) = ([evs], shutdown a', Returns True)"
  by simp

lemma run_body_complete:
  "run_body t a = (evs, Inr a') \<Longrightarrow>
   filter (\<lambda>e. e = Update (r_delta_time t) \<or> e = Render \<or> is_sleep e) evs =
     [Update (r_delta_time t), Render, Sleep 0.001]"
  by (auto simp: run_body_def Let_def split: sum.splits prod.splits if_splits)

section \<open>Facts about runs that are extended\<close>

lemma run_append:
  assumes "run init pre app = (fs, a, Running)"
  shows "run init (pre @ rest) app = (case run_loop a rest of (fs', a', r) \<Rightarrow> (fs @ fs', a', r))"
proof (cases "running app")
  case True
  with assms have "run_loop app pre = (fs, a, Running)" by (simp add: run_def)
  from run_loop_append [OF this, of rest] True show ?thesis by (simp add: run_def)
next
  case False
  show ?thesis
  proof (cases "init app")
    case (Inl e)
    with False assms show ?thesis by (simp add: run_def)
  next
    case (Inr p)
    obtain ok app' where p: "p = (ok, app')" by (cases p)
    with Inr False assms have ok: ok by (cases ok) (simp_all add: run_def)
    with p Inr False assms have "run_loop app' pre = (fs, a, Running)" by (simp add: run_def)
    from run_loop_append [OF this, of rest] ok p Inr False show ?thesis by (simp add: run_def)
  qed
qed

lemma run_Running_length:
  "run init pre app = (fs, a, Running) \<Longrightarrow> length fs = length pre"
  by (auto simp: run_def dest: run_loop_Running_length split: if_splits sum.splits prod.splits)

lemma main_loop_append:
  "main_loop clock game pre = (fs, g, Running) \<Longrightarrow>
   main_loop clock game (pre @ rest) =
     (case main_loop (last (clock # map t_time pre)) g rest of (fs', g', r) \<Rightarrow> (fs @ fs', g', r))"
proof (induction pre arbitrary: clock game fs)
  case Nil
  then show ?case by (simp split: prod.splits)
next
  case (Cons t ts)
  obtain game' ex where up: "PlatformerGame_update (t_time t - clock) (t_get_input t) game = (game', ex)"
    by (cases "PlatformerGame_update (t_time t - clock) (t_get_input t) game")
  obtain fs0 g0 r0 where rec: "main_loop (t_time t) game' ts = (fs0, g0, r0)"
    by (cases "main_loop (t_time t) game' ts")
  from Cons.prems up rec have en: "t_is_running t" "ex = None" "t_render t = None" "t_sleep t = None"
    by (auto simp: Let_def split: if_splits option.splits)
  with Cons.prems up rec have eq: "g0 = g" "r0 = Running"
    "fs = \<lparr>delta_time = t_time t - clock, elapsed_time = game_time game',
           calls = [Update (t_time t - clock), Render, Sleep (limit_fps (t_time t - clock))]\<rparr> # fs0"
    by (auto simp: Let_def)
  from Cons.IH [of "t_time t" game' fs0] rec eq have
    "main_loop (t_time t) game' (ts @ rest) =
       (case main_loop (last (t_time t # map t_time ts)) g rest of (fs', g', r) \<Rightarrow> (fs0 @ fs', g', r))"
    by simp
  with en up eq show ?case by (simp add: Let_def split: prod.splits)
qed

lemma main_loop_Running_length:
  "main_loop clock game pre = (fs, g, Running) \<Longrightarrow> length fs = length pre"
proof (induction pre arbitrary: clock game fs)
  case Nil
  then show ?case by simp
next
  case (Cons t ts)
  obtain game' ex where up: "PlatformerGame_update (t_time t - clock) (t_get_input t) game = (game', ex)"
    by (cases "PlatformerGame_update (t_time t - clock) (t_get_input t) game")
  obtain fs0 g0 r0 where rec: "main_loop (t_time t) game' ts = (fs0, g0, r0)"
    by (cases "main_loop (t_time t) game' ts")
  from Cons.prems up rec have en: "t_is_running t" "ex = None" "t_render t = None" "t_sleep t = None"
    by (auto simp: Let_def split: if_splits option.splits)
  with Cons.prems up rec have eq: "g0 = g" "r0 = Running" "length fs = Suc (length fs0)"
    by (auto simp: Let_def)
  from Cons.IH [of "t_time t" game' fs0] rec eq show ?case by simp
qed

lemma main_loop_raise:
  assumes "t_is_running t"
    and "t_get_input t = Inl e \<or> (\<exists>im. t_get_input t = Inr im) \<and> t_render t = Some e"
  shows "length (fst (main_loop clock game (t # ts))) = 1
         \<and> snd (snd (main_loop clock game (t # ts))) = Raises e"
  using assms
  by (auto simp: Let_def PlatformerGame_update_def split: prod.splits option.splits sum.splits)

lemma main_loop_complete:
  "Suc n < length (fst (main_loop clock game ticks)) \<Longrightarrow>
   calls (fst (main_loop clock game ticks) ! n) =
     [Update (delta_time (fst (main_loop clock game ticks) ! n)), Render,
      Sleep (limit_fps (delta_time (fst (main_loop clock game ticks) ! n)))]"
proof (induction ticks arbitrary: clock game n)
  case Nil
  then show ?case by simp
next
  case (Cons t ts)
  obtain game' ex where up: "PlatformerGame_update (t_time t - clock) (t_get_input t) game = (game', ex)"
    by (cases "PlatformerGame_update (t_time t - clock) (t_get_input t) game")
  obtain frames g r where rec: "main_loop (t_time t) game' ts = (frames, g, r)"
    by (cases "main_loop (t_time t) game' ts")
  show ?case
  proof (cases n)
    case 0
    with Cons.prems up rec show ?thesis
      by (simp add: Let_def split: if_splits option.splits)
  next
    case (Suc m)
    with Cons.prems up rec have "Suc m < length (fst (main_loop (t_time t) game' ts))"
      by (simp add: Let_def split: if_splits option.splits)
    from Cons.IH [OF this] Cons.prems up rec Suc show ?thesis
      by (simp add: Let_def split: if_splits option.splits)
  qed
qed

lemma run_loop_complete:
  "Suc n < length (fst (run_loop app ticks)) \<Longrightarrow>
   Sleep 0.001 \<in> set (fst (run_loop app ticks) ! n)"
proof (induction ticks arbitrary: app n)
  case Nil
  then show ?case by simp
next
  case (Cons t ts)
  obtain es r where body: "run_body t app = (es, r)" by (cases "run_body t app")
  from Cons.prems have en: "r_is_running t \<and> running app"
    by (auto split: if_splits)
  from Cons.prems en body obtain app' where r: "r = Inr app'"
    by (cases r) auto
  obtain fs0 a0 r0 where rec: "run_loop app' ts = (fs0, a0, r0)" by (cases "run_loop app' ts")
  show ?case
  proof (cases n)
    case 0
    from run_body_complete [of t app es app'] body r
    have "Sleep 0.001 \<in> set (filter (\<lambda>e. e = Update (r_delta_time t) \<or> e = Render \<or> is_sleep e) es)"
      by simp
    then have "Sleep 0.001 \<in> set es" by simp
    with 0 en body r rec show ?thesis by simp
  next
    case (Suc m)
    with Cons.prems en body r rec have "Suc m < length (fst (run_loop app' ts))" by simp
    from Cons.IH [OF this] Suc en body r rec show ?thesis by simp
  qed
qed

section \<open>The calls of an iteration\<close>

lemma demo_loop_calls:
  "fr \<in> set (fst (demo_loop D s cs)) \<Longrightarrow> calls fr = [Sleep 0.016] \<or> calls fr = []"
proof (induction cs arbitrary: s)
  case Nil
  then show ?case by simp
next
  case (Cons c cs)
  obtain dt s' where st: "demo_step c s = (dt, s')" by (cases "demo_step c s")
  obtain frames r where rec: "demo_loop D s' cs = (frames, r)" by (cases "demo_loop D s' cs")
  from Cons.IH [of s'] Cons.prems st rec show ?case
    by (auto split: if_splits)
qed

lemma basic_demo_calls:
  "fr \<in> set (fst (basic_demo clock)) \<Longrightarrow> calls fr = [Sleep 0.016] \<or> calls fr = []"
  by (cases clock) (auto simp: basic_demo_def demo_with_def dest: demo_loop_calls)

lemma run_complete:
  "Suc n < length (fst (run init ticks app)) \<Longrightarrow> Sleep 0.001 \<in> set (fst (run init ticks app) ! n)"
  using run_loop_complete
  by (fastforce simp: run_def split: if_splits sum.splits prod.splits)

lemma main_complete:
  assumes "Suc n < length (fst (main init_ok clock0 ticks))"
  shows "calls (fst (main init_ok clock0 ticks) ! n) =
     [Update (delta_time (fst (main init_ok clock0 ticks) ! n)), Render,
      Sleep (limit_fps (delta_time (fst (main init_ok clock0 ticks) ! n)))]"
proof -
  from assms have ok: init_ok by (cases init_ok) (simp_all add: main_frames_False)
  with assms main_loop_complete [of n clock0 PlatformerGame_init ticks] show ?thesis
    by (simp add: main_frames)
qed

lemma main_calls:
  assumes "fr \<in> set (fst (main init_ok clock0 ticks))"
  shows "calls fr = [Update (delta_time fr)]
   \<or> calls fr = [Update (delta_time fr), Render]
   \<or> calls fr = [Update (delta_time fr), Render, Sleep (limit_fps (delta_time fr))]"
proof -
  from assms have ok: init_ok by (cases init_ok) (simp_all add: main_frames_False)
  with assms main_loop_calls [of fr clock0 PlatformerGame_init ticks] show ?thesis
    by (simp add: main_frames)
qed

section \<open>Player.update and the respawn branch\<close>

text \<open>
  Claim C10. Whatever the time step and the keys, \<^verbatim>\<open>Player.update\<close> leaves the player at
  a height of at least 0; when the ground test of line 41 fired, the height and the
  vertical velocity are 0 and \<^verbatim>\<open>on_ground\<close> is set. Hence the test of line 94
  (\<^verbatim>\<open>position.y < -10\<close>) is false after the player has been updated, and
  \<^verbatim>\<open>PlatformerGame.update\<close> leaves the player as \<^verbatim>\<open>Player.update\<close> returned it: the
  respawn branch is not taken.
\<close>

theorem player_never_below_ground:
  "0 \<le> vec_y (position (Player_update dt im p))
   \<and> (ground_hit (before_collision dt im p) \<longrightarrow>
        vec_y (position (Player_update dt im p)) = 0
        \<and> vec_y (velocity (Player_update dt im p)) = 0
        \<and> on_ground (Player_update dt im p))
   \<and> \<not> fell (Player_update dt im p)
   \<and> player (update_with_input dt im g) = Player_update dt im (player g)
   \<and> player (fst (PlatformerGame_update dt (Inr im) g)) = Player_update dt im (player g)"
  by (simp add: Player_update_def ground_collision_def ground_hit_def fell_def
      update_with_input_def PlatformerGame_update_def Let_def)

text \<open>
  A player at rest on the ground, no key held, a step of a tenth of a second: gravity
  takes it to \<open>-1/4\<close>, the ground test fires, and it is put back at height 0.
\<close>

theorem player_never_below_ground_witness:
  "ground_hit (before_collision (1 / 10) no_keys Player_init)
   \<and> vec_y (position (before_collision (1 / 10) no_keys Player_init)) = - (1 / 4)
   \<and> vec_y (position (Player_update (1 / 10) no_keys Player_init)) = 0
   \<and> vec_y (velocity (Player_update (1 / 10) no_keys Player_init)) = 0
   \<and> on_ground (Player_update (1 / 10) no_keys Player_init)"
  using player_never_below_ground [of "1 / 10" no_keys Player_init]
  by (simp add: before_collision_def update_position_def gravity_def jumping_def
      horizontal_movement_def no_keys_def Player_init_def ground_hit_def ord_def)

section \<open>Accumulated time\<close>

text \<open>
  Claim C1. In every run of the demo loop and of the platformer loop, and for every
  number of iterations executed, the accumulated time after the iteration
  (\<^verbatim>\<open>demo_time\<close>, \<^verbatim>\<open>game_time\<close>) is the sum of the \<^verbatim>\<open>delta_time\<close> values computed
  so far, and each \<^verbatim>\<open>delta_time\<close> is the difference of two successive clock readings;
  the \<^verbatim>\<open>game_time\<close> the platformer loop ends with is the sum of all of them.
\<close>

theorem accumulated_time_is_sum_of_deltas:
  "(\<forall>n < length (fst (basic_demo clock)).
      elapsed_time (fst (basic_demo clock) ! n) =
        sum_list (map delta_time (take (Suc n) (fst (basic_demo clock))))
      \<and> delta_time (fst (basic_demo clock) ! n) = clock ! Suc n - clock ! n)
   \<and> (\<forall>n < length (fst (main init_ok clock0 ticks)).
      elapsed_time (fst (main init_ok clock0 ticks) ! n) =
        sum_list (map delta_time (take (Suc n) (fst (main init_ok clock0 ticks))))
      \<and> delta_time (fst (main init_ok clock0 ticks) ! n) =
          (clock0 # map t_time ticks) ! Suc n - (clock0 # map t_time ticks) ! n)
   \<and> (main_loop clock0 PlatformerGame_init ticks = (frames, g, r) \<longrightarrow>
        game_time g = sum_list (map delta_time frames))"
proof (intro conjI allI impI)
  assume "main_loop clock0 PlatformerGame_init ticks = (frames, g, r)"
  from main_loop_final [OF this]
  show "game_time g = sum_list (map delta_time frames)"
    by (simp add: PlatformerGame_init_def)
qed (simp_all add: basic_demo_elapsed main_elapsed)

text \<open>Readings 0, 1, 3: the steps are 1 and 2, the accumulated time is 3.\<close>

theorem accumulated_time_is_sum_of_deltas_witness:
  "1 < length (fst (basic_demo [0, 1, 3]))
   \<and> elapsed_time (fst (basic_demo [0, 1, 3]) ! 1) = 3
   \<and> map delta_time (take 2 (fst (basic_demo [0, 1, 3]))) = [1, 2]
   \<and> 1 < length (fst (main True 0 [idle_tick 1, idle_tick 3]))
   \<and> elapsed_time (fst (main True 0 [idle_tick 1, idle_tick 3]) ! 1) = 3
   \<and> map delta_time (take 2 (fst (main True 0 [idle_tick 1, idle_tick 3]))) = [1, 2]
   \<and> game_time (fst (snd (main_loop 0 PlatformerGame_init [idle_tick 1, idle_tick 3]))) = 3"
  using accumulated_time_is_sum_of_deltas
    [of "[0, 1, 3]" True 0 "[idle_tick 1, idle_tick 3]"
       "fst (main_loop 0 PlatformerGame_init [idle_tick 1, idle_tick 3])"
       "fst (snd (main_loop 0 PlatformerGame_init [idle_tick 1, idle_tick 3]))"
       "snd (snd (main_loop 0 PlatformerGame_init [idle_tick 1, idle_tick 3]))"]
  by (simp add: eval_simps)

section \<open>The first time step\<close>

text \<open>
  Claim C8, as stated: the \<^verbatim>\<open>delta_time\<close> of the first iteration is exactly 0. The
  loops read the clock once before the loop (line 43 of the demo, line 145 of the
  platformer) and again at the top of the first iteration; with the readings 0 and
  0.016 the first \<^verbatim>\<open>delta_time\<close> is 0.016.
\<close>

theorem first_delta_counterexample:
  "delta_time (hd (fst (basic_demo [0, 0.016]))) \<noteq> 0"
  by (simp add: eval_simps)

text \<open>
  Claim C8, amended: the \<^verbatim>\<open>delta_time\<close> of the first iteration is the first reading
  taken inside the loop minus the reading taken just before the loop (so it is 0 exactly
  when the two readings coincide).
\<close>

theorem first_delta_is_first_difference:
  "fst (basic_demo (t0 # t1 # rest)) \<noteq> []
   \<and> delta_time (hd (fst (basic_demo (t0 # t1 # rest)))) = t1 - t0
   \<and> (t_is_running t \<longrightarrow>
        fst (main True clock0 (t # ts)) \<noteq> []
        \<and> delta_time (hd (fst (main True clock0 (t # ts)))) = t_time t - clock0)"
  by (simp add: basic_demo_def demo_with_def demo_step_def main_def Let_def
      split: prod.splits option.splits)

theorem first_delta_is_first_difference_witness:
  "t_is_running (idle_tick 5)
   \<and> delta_time (hd (fst (main True 3 [idle_tick 5]))) = 2
   \<and> delta_time (hd (fst (basic_demo [3, 5]))) = 2"
  using first_delta_is_first_difference [of 3 5 "[]" "idle_tick 5" 3 "[]"]
  by (simp add: idle_tick_def)

section \<open>Sign of the time step\<close>

text \<open>
  Claim C4, as stated: for every sequence of clock readings \<^verbatim>\<open>delta_time\<close> is
  non-negative (clamped) and the accumulated time never decreases. The loops subtract
  two readings of \<^verbatim>\<open>time.time()\<close> and clamp nothing: when the clock is set back from 1
  to 0 between two readings, \<^verbatim>\<open>delta_time\<close> is \<open>-1\<close> and \<^verbatim>\<open>demo_time\<close> falls from 0
  to \<open>-1\<close>.
\<close>

theorem delta_nonneg_counterexample:
  "delta_time (hd (fst (basic_demo [1, 0]))) < 0 \<and> elapsed_time (hd (fst (basic_demo [1, 0]))) < 0"
  by (simp add: eval_simps)

text \<open>
  Claim C4, amended: for every non-decreasing sequence of clock readings, every
  \<^verbatim>\<open>delta_time\<close> is non-negative, and the accumulated time is non-negative and
  non-decreasing across the iterations.
\<close>

theorem delta_nonneg_for_monotone_clock:
  "(sorted clock \<longrightarrow>
      (\<forall>fr\<in>set (fst (basic_demo clock)). 0 \<le> delta_time fr \<and> 0 \<le> elapsed_time fr)
      \<and> sorted (map elapsed_time (fst (basic_demo clock))))
   \<and> (sorted (clock0 # map t_time ticks) \<longrightarrow>
      (\<forall>fr\<in>set (fst (main init_ok clock0 ticks)). 0 \<le> delta_time fr \<and> 0 \<le> elapsed_time fr)
      \<and> sorted (map elapsed_time (fst (main init_ok clock0 ticks))))"
proof (rule conjI; rule impI)
  assume so: "sorted clock"
  let ?fs = "fst (basic_demo clock)"
  have d: "\<forall>n<length ?fs. 0 \<le> delta_time (?fs ! n)"
  proof (intro allI impI)
    fix n assume n: "n < length ?fs"
    from basic_demo_elapsed(3) [OF n] so have "clock ! n \<le> clock ! Suc n"
      by (simp add: sorted_nth_mono)
    with basic_demo_elapsed(2) [OF n] show "0 \<le> delta_time (?fs ! n)" by simp
  qed
  have e: "\<forall>n<length ?fs. elapsed_time (?fs ! n) = 0 + sum_list (map delta_time (take (Suc n) ?fs))"
    using basic_demo_elapsed(1) by simp
  from frames_monotone [OF e d] all_set_nth [of ?fs "\<lambda>fr. 0 \<le> delta_time fr", OF d]
  show "(\<forall>fr\<in>set ?fs. 0 \<le> delta_time fr \<and> 0 \<le> elapsed_time fr) \<and> sorted (map elapsed_time ?fs)"
    by blast
next
  assume so: "sorted (clock0 # map t_time ticks)"
  let ?fs = "fst (main init_ok clock0 ticks)"
  let ?cs = "clock0 # map t_time ticks"
  have d: "\<forall>n<length ?fs. 0 \<le> delta_time (?fs ! n)"
  proof (intro allI impI)
    fix n assume n: "n < length ?fs"
    from main_elapsed(3) [OF n] have "Suc n < length ?cs" by simp
    from sorted_nth_mono [OF so _ this, of n] have "?cs ! n \<le> ?cs ! Suc n" by simp
    with main_elapsed(2) [OF n] show "0 \<le> delta_time (?fs ! n)" by simp
  qed
  have e: "\<forall>n<length ?fs. elapsed_time (?fs ! n) = 0 + sum_list (map delta_time (take (Suc n) ?fs))"
    using main_elapsed(1) by simp
  from frames_monotone [OF e d] all_set_nth [of ?fs "\<lambda>fr. 0 \<le> delta_time fr", OF d]
  show "(\<forall>fr\<in>set ?fs. 0 \<le> delta_time fr \<and> 0 \<le> elapsed_time fr) \<and> sorted (map elapsed_time ?fs)"
    by blast
qed

theorem delta_nonneg_for_monotone_clock_witness:
  "sorted [0, 1, 3 :: real]
   \<and> map delta_time (fst (basic_demo [0, 1, 3])) = [1, 2]
   \<and> sorted (map elapsed_time (fst (basic_demo [0, 1, 3])))
   \<and> sorted (0 # map t_time [idle_tick 1, idle_tick 3])
   \<and> map delta_time (fst (main True 0 [idle_tick 1, idle_tick 3])) = [1, 2]
   \<and> sorted (map elapsed_time (fst (main True 0 [idle_tick 1, idle_tick 3])))"
  using delta_nonneg_for_monotone_clock [of "[0, 1, 3]" 0 "[idle_tick 1, idle_tick 3]" True]
  by (simp add: eval_simps)

section \<open>End of the demo after the maximum duration\<close>

text \<open>
  Claim C3, as stated: the loop ends on the first iteration in which the accumulated
  time is greater than or equal to the maximum duration, and runs no iteration after it.
  The test of line 69 is \<^verbatim>\<open>demo_time > 30.0\<close>: with the readings 0, 30, 31 the first
  iteration reaches exactly 30, the loop goes on, and a second iteration runs.
\<close>

theorem max_duration_counterexample:
  "30 \<le> elapsed_time (fst (basic_demo [0, 30, 31]) ! 0)
   \<and> length (fst (basic_demo [0, 30, 31])) = 2"
  by (simp add: eval_simps)

text \<open>
  Claim C3, amended: the demo loop, whose maximum duration \<open>D\<close> is the constant 30 of
  line 69, ends with \<open>Completed\<close> on the first iteration in which the accumulated
  time is strictly greater than \<open>D\<close>, and no further iteration runs; as long as no
  iteration exceeds \<open>D\<close> the loop goes on. With \<open>D = 0.25\<close> and the readings 0.0, 0.1,
  0.2, 0.3 exactly 3 iterations run and the result is \<open>Completed\<close>.
\<close>

theorem demo_completes_when_time_exceeds:
  "(\<forall>n<length (fst (demo_loop D s clock)).
      elapsed_time (fst (demo_loop D s clock) ! n) = demo_time (demo_states s clock ! n))
   \<and> (\<forall>k<length clock.
        D < demo_time (demo_states s clock ! k)
        \<and> (\<forall>j<k. \<not> D < demo_time (demo_states s clock ! j)) \<longrightarrow>
        snd (demo_loop D s clock) = Completed
        \<and> length (fst (demo_loop D s clock)) = Suc k)
   \<and> ((\<forall>j<length clock. \<not> D < demo_time (demo_states s clock ! j)) \<longrightarrow>
        snd (demo_loop D s clock) = StillLooping
        \<and> length (fst (demo_loop D s clock)) = length clock)
   \<and> length (fst (demo_with 0.25 [0.0, 0.1, 0.2, 0.3])) = 3
   \<and> snd (demo_with 0.25 [0.0, 0.1, 0.2, 0.3]) = Completed"
proof (intro conjI allI impI)
  fix k
  assume k: "k < length clock"
    and h: "D < demo_time (demo_states s clock ! k)
            \<and> (\<forall>j<k. \<not> D < demo_time (demo_states s clock ! j))"
  from demo_loop_first_exceed [OF k] h
  show "snd (demo_loop D s clock) = Completed" "length (fst (demo_loop D s clock)) = Suc k"
    by simp_all
next
  assume h: "\<forall>j<length clock. \<not> D < demo_time (demo_states s clock ! j)"
  from demo_loop_never_exceed [OF h]
  show "snd (demo_loop D s clock) = StillLooping"
    "length (fst (demo_loop D s clock)) = length clock"
    by simp_all
qed (simp_all add: demo_loop_states demo_with_def demo_step_def Let_def)

text \<open>
  The demo as it is (\<open>D = 30\<close>) on the readings 0, 30, 31: the accumulated times are 30
  and 31, the second is the first to exceed 30, and the loop ends there.
\<close>

theorem demo_completes_when_time_exceeds_witness:
  "(1::nat) < length [30, 31 :: real]
   \<and> map demo_time (demo_states \<lparr>last_time = 0, demo_time = 0, frame_count = 0\<rparr> [30, 31]) = [30, 31]
   \<and> basic_demo [0, 30, 31] =
       ([\<lparr>delta_time = 30, elapsed_time = 30, calls = [Sleep 0.016]\<rparr>,
         \<lparr>delta_time = 1, elapsed_time = 31, calls = []\<rparr>], Completed)
   \<and> snd (demo_loop 30 \<lparr>last_time = 0, demo_time = 0, frame_count = 0\<rparr> [30, 31]) = Completed
   \<and> length (fst (demo_loop 30 \<lparr>last_time = 0, demo_time = 0, frame_count = 0\<rparr> [30, 31])) = 2"
  using demo_completes_when_time_exceeds
    [of 30 "\<lparr>last_time = 0, demo_time = 0, frame_count = 0\<rparr>" "[30, 31]"]
  by (simp add: eval_simps)

section \<open>Update before render\<close>

text \<open>
  Claim C2. In every iteration of \<^verbatim>\<open>GameApplication.run\<close> and of the platformer loop
  the update callback is called before the render callback: when a render call is made,
  \<^verbatim>\<open>update\<close> has been called earlier in the same iteration, and no update call follows a
  render call of that iteration.
\<close>

theorem update_precedes_render:
  "(\<forall>evs\<in>set (fst (run init ticks app)). update_before_render evs)
   \<and> (\<forall>fr\<in>set (fst (main init_ok clock0 mticks)). update_before_render (calls fr))"
proof (intro conjI ballI)
  fix evs assume "evs \<in> set (fst (run init ticks app))"
  from run_frames [OF this] obtain t a where "evs = fst (run_body t a)" by blast
  then show "update_before_render evs" by (simp add: run_body_order)
next
  fix fr assume fr: "fr \<in> set (fst (main init_ok clock0 mticks))"
  then have ok: init_ok by (cases init_ok) (simp_all add: main_frames_False)
  with fr have "fr \<in> set (fst (main_loop clock0 PlatformerGame_init mticks))"
    by (simp add: main_frames)
  from main_loop_calls [OF this] show "update_before_render (calls fr)"
    by (auto simp: update_before_render_def)
qed

text \<open>
  One iteration of \<^verbatim>\<open>run\<close> with a scene set, and one of the platformer loop; a list
  with the render call first does not have the property.
\<close>

theorem update_precedes_render_witness:
  "fst (run (initialize True) [plain_tick 0.1, stopped_tick] (set_scene ''TestScene'' GameApplication_init))
     = [[SceneUpdate 0.1, Update 0.1, SceneRender, Render, Sleep 0.001]]
   \<and> update_before_render [SceneUpdate 0.1, Update 0.1, SceneRender, Render, Sleep 0.001]
   \<and> map calls (fst (main True 0 [idle_tick 1])) = [[Update 1, Render, Sleep 0]]
   \<and> update_before_render [Update 1, Render, Sleep 0]
   \<and> \<not> update_before_render [Render, Update 1]"
  using update_precedes_render
    [of "initialize True" "[plain_tick 0.1, stopped_tick]"
        "set_scene ''TestScene'' GameApplication_init" True 0 "[idle_tick 1]"]
  by (simp add: run_simps eval_simps update_before_render_def)

section \<open>Frame pacing\<close>

text \<open>
  Claim C5, as stated: at the end of an iteration the loop sleeps for
  \<^verbatim>\<open>target_frame_seconds\<close> minus the time the iteration consumed after its clock sample
  when that is positive, and does not sleep otherwise. In the platformer loop, on a
  simulated clock starting at 0, let the callbacks of the first iteration take 1 second
  and those of the second take no time. The first iteration has used up its budget of
  1/60, yet the loop sleeps 1/60; the second has its whole budget left, yet the loop
  sleeps 0: line 165 subtracts \<^verbatim>\<open>delta_time\<close>, the time between the previous clock sample
  and this one.
\<close>

theorem pacing_counterexample:
  "map calls (fst (main True 0 (sim_ticks 0 0 [1, 0]))) =
     [[Update 0, Render, Sleep (1 / 60)], [Update (61 / 60), Render, Sleep 0]]
   \<and> map (spec_pacing (1 / 60)) [1, 0] = [[], [Sleep (1 / 60)]]"
  by (simp add: eval_simps spec_pacing_def spec_remaining_budget_def)

text \<open>
  Claim C5, amended: at the end of each iteration the platformer loop calls
  \<^verbatim>\<open>time.sleep(max(0, 1/60 - delta_time))\<close>, where \<^verbatim>\<open>delta_time\<close> is the time between
  the previous clock sample and the one of this iteration; \<^verbatim>\<open>GameApplication.run\<close>
  sleeps 0.001 seconds and the demo loop 0.016 seconds, whatever the iteration took.
  Every iteration that is followed by another one has made its sleep call. No loop
  calls a callback more than once in an iteration.
\<close>

theorem pacing_as_coded:
  "(\<forall>fr\<in>set (fst (main init_ok clock0 mticks)).
      calls fr = [Update (delta_time fr)]
      \<or> calls fr = [Update (delta_time fr), Render]
      \<or> calls fr = [Update (delta_time fr), Render, Sleep (max 0 (1 / 60 - delta_time fr))])
   \<and> (\<forall>n. Suc n < length (fst (main init_ok clock0 mticks)) \<longrightarrow>
        calls (fst (main init_ok clock0 mticks) ! n) =
          [Update (delta_time (fst (main init_ok clock0 mticks) ! n)), Render,
           Sleep (max 0 (1 / 60 - delta_time (fst (main init_ok clock0 mticks) ! n)))])
   \<and> (\<forall>evs\<in>set (fst (run init ticks app)).
        \<exists>dt. subseq evs [SceneUpdate dt, Update dt, SceneRender, Render, Sleep 0.001])
   \<and> (\<forall>n. Suc n < length (fst (run init ticks app)) \<longrightarrow>
        Sleep 0.001 \<in> set (fst (run init ticks app) ! n))
   \<and> (\<forall>fr\<in>set (fst (basic_demo clock)). calls fr = [Sleep 0.016] \<or> calls fr = [])"
proof (intro conjI ballI allI impI)
  fix fr assume "fr \<in> set (fst (main init_ok clock0 mticks))"
  from main_calls [OF this]
  show "calls fr = [Update (delta_time fr)]
      \<or> calls fr = [Update (delta_time fr), Render]
      \<or> calls fr = [Update (delta_time fr), Render, Sleep (max 0 (1 / 60 - delta_time fr))]"
    by (simp add: limit_fps_def)
next
  fix n assume "Suc n < length (fst (main init_ok clock0 mticks))"
  from main_complete [OF this]
  show "calls (fst (main init_ok clock0 mticks) ! n) =
          [Update (delta_time (fst (main init_ok clock0 mticks) ! n)), Render,
           Sleep (max 0 (1 / 60 - delta_time (fst (main init_ok clock0 mticks) ! n)))]"
    by (simp add: limit_fps_def)
next
  fix evs assume "evs \<in> set (fst (run init ticks app))"
  from run_frames [OF this] obtain t a where "evs = fst (run_body t a)" by blast
  with run_body_subseq [of t a]
  show "\<exists>dt. subseq evs [SceneUpdate dt, Update dt, SceneRender, Render, Sleep 0.001]"
    by blast
next
  fix n assume "Suc n < length (fst (run init ticks app))"
  then show "Sleep 0.001 \<in> set (fst (run init ticks app) ! n)" by (rule run_complete)
next
  fix fr assume "fr \<in> set (fst (basic_demo clock))"
  then show "calls fr = [Sleep 0.016] \<or> calls fr = []" by (rule basic_demo_calls)
qed

text \<open>
  Two iterations of each loop. In the platformer loop the clock readings are 0, 1 and
  601/600: the sleeps are \<open>max 0 (1/60 - 1) = 0\<close> and \<open>1/60 - 1/600 = 9/600\<close>.
\<close>

theorem pacing_as_coded_witness:
  "map calls (fst (main True 0 [idle_tick 1, idle_tick (601 / 600)])) =
     [[Update 1, Render, Sleep 0], [Update (1 / 600), Render, Sleep (9 / 600)]]
   \<and> max 0 (1 / 60 - 1 / 600) = (9 / 600 :: real)
   \<and> fst (run (initialize True) [plain_tick 0.1, plain_tick 0.1] GameApplication_init) =
       [[Update 0.1, Render, Sleep 0.001], [Update 0.1, Render, Sleep 0.001]]
   \<and> map calls (fst (basic_demo [0, 1])) = [[Sleep 0.016]]"
  using pacing_as_coded
    [of True 0 "[idle_tick 1, idle_tick (601 / 600)]" "initialize True"
        "[plain_tick 0.1, plain_tick 0.1]" GameApplication_init "[0, 1]"]
  by (simp add: run_simps eval_simps)

section \<open>A callback that raises\<close>

text \<open>
  Claim C6, as stated: when an update or render callback raises during an iteration, the
  loop stops and the failure is propagated to the caller. In \<^verbatim>\<open>main\<close> of the platformer
  the loop stands in a \<^verbatim>\<open>try\<close> whose handler catches \<^verbatim>\<open>KeyboardInterrupt\<close> (line 167):
  when \<^verbatim>\<open>game.update\<close> raises it in the first iteration, the loop stops, the engine is
  shut down, and \<^verbatim>\<open>main\<close> returns normally.
\<close>

theorem callback_failure_counterexample:
  "main True 0 [(idle_tick 1)\<lparr>t_get_input := Inl KeyboardInterrupt\<rparr>, idle_tick 2] =
     ([\<lparr>delta_time = 1, elapsed_time = 1, calls = [Update 1]\<rparr>], Returns ())"
  by (simp add: eval_simps)

text \<open>
  Claim C6, amended: when a callback raises during iteration \<open>k\<close>, the loop stops at
  once, the callback is not called again and no iteration \<open>k + 1\<close> runs.
  \<^verbatim>\<open>GameApplication.run\<close> propagates every exception to its caller. \<^verbatim>\<open>main\<close> of the
  platformer propagates every exception but \<^verbatim>\<open>KeyboardInterrupt\<close>, after which it
  returns normally. (An exception leaving the function is what the specification calls
  the result \<open>Failed\<close>.)
\<close>

theorem callback_failure_stops_loop:
  "(run init pre app = (fs, a, Running) \<and> r_is_running t \<and> running a
      \<and> run_body t a = (evs, Inl e) \<longrightarrow>
      run init (pre @ t # ts) app = (fs @ [evs], a, Raises e)
      \<and> length (fs @ [evs]) = Suc (length pre))
   \<and> (main_loop clock0 PlatformerGame_init mpre = (frs, g, Running) \<and> t_is_running u
      \<and> (t_get_input u = Inl e \<or> (\<exists>im. t_get_input u = Inr im) \<and> t_render u = Some e) \<longrightarrow>
      length (fst (main True clock0 (mpre @ u # us))) = Suc (length mpre)
      \<and> snd (main True clock0 (mpre @ u # us)) =
          (if e = KeyboardInterrupt then Returns () else Raises e))"
proof (rule conjI; rule impI)
  assume h: "run init pre app = (fs, a, Running) \<and> r_is_running t \<and> running a
      \<and> run_body t a = (evs, Inl e)"
  then have 1: "run init pre app = (fs, a, Running)" by simp
  from h have "run_loop a (t # ts) = ([evs], a, Raises e)" by (simp add: run_loop_raise)
  with run_append [OF 1, of "t # ts"] run_Running_length [OF 1]
  show "run init (pre @ t # ts) app = (fs @ [evs], a, Raises e)
      \<and> length (fs @ [evs]) = Suc (length pre)"
    by simp
next
  assume h: "main_loop clock0 PlatformerGame_init mpre = (frs, g, Running) \<and> t_is_running u
      \<and> (t_get_input u = Inl e \<or> (\<exists>im. t_get_input u = Inr im) \<and> t_render u = Some e)"
  then have 1: "main_loop clock0 PlatformerGame_init mpre = (frs, g, Running)" by simp
  let ?c = "last (clock0 # map t_time mpre)"
  obtain fs' g' r' where rest: "main_loop ?c g (u # us) = (fs', g', r')"
    by (cases "main_loop ?c g (u # us)")
  from h have "t_is_running u"
    and "t_get_input u = Inl e \<or> (\<exists>im. t_get_input u = Inr im) \<and> t_render u = Some e"
    by simp_all
  from main_loop_raise [OF this, of ?c g us] rest
  have r: "length fs' = 1" "r' = Raises e" by simp_all
  from main_loop_append [OF 1, of "u # us"] rest
  have "main_loop clock0 PlatformerGame_init (mpre @ u # us) = (frs @ fs', g', r')" by simp
  with r main_loop_Running_length [OF 1]
  show "length (fst (main True clock0 (mpre @ u # us))) = Suc (length mpre)
      \<and> snd (main True clock0 (mpre @ u # us)) =
          (if e = KeyboardInterrupt then Returns () else Raises e)"
    by (cases e) (simp_all add: main_def)
qed

text \<open>
  A first iteration that completes, a second one whose render callback raises, and a
  third answer of the outside world that is never asked for.
\<close>

theorem callback_failure_stops_loop_witness:
  "run (initialize True) [plain_tick 0.1] GameApplication_init =
     ([[Update 0.1, Render, Sleep 0.001]], GameApplication_init\<lparr>running := True\<rparr>, Running)
   \<and> run_body ((plain_tick 0.2)\<lparr>r_render := Inl (Exception ''boom'')\<rparr>)
        (GameApplication_init\<lparr>running := True\<rparr>) =
       ([Update 0.2, Render], Inl (Exception ''boom''))
   \<and> run (initialize True)
        ([plain_tick 0.1] @ (plain_tick 0.2)\<lparr>r_render := Inl (Exception ''boom'')\<rparr> # [plain_tick 0.3])
        GameApplication_init =
       ([[Update 0.1, Render, Sleep 0.001], [Update 0.2, Render]],
        GameApplication_init\<lparr>running := True\<rparr>, Raises (Exception ''boom''))
   \<and> snd (snd (main_loop 0 PlatformerGame_init [idle_tick 1])) = Running
   \<and> length (fst (main True 0
        ([idle_tick 1] @ (idle_tick 2)\<lparr>t_render := Some (Exception ''boom'')\<rparr> # [idle_tick 3]))) = 2
   \<and> snd (main True 0
        ([idle_tick 1] @ (idle_tick 2)\<lparr>t_render := Some (Exception ''boom'')\<rparr> # [idle_tick 3])) =
       Raises (Exception ''boom'')"
  using callback_failure_stops_loop
    [of "initialize True" "[plain_tick 0.1]" GameApplication_init
        "[[Update 0.1, Render, Sleep 0.001]]" "GameApplication_init\<lparr>running := True\<rparr>"
        "(plain_tick 0.2)\<lparr>r_render := Inl (Exception ''boom'')\<rparr>"
        "[Update 0.2, Render]" "Exception ''boom''" "[plain_tick 0.3]"
        0 "[idle_tick 1]"
        "fst (main_loop 0 PlatformerGame_init [idle_tick 1])"
        "fst (snd (main_loop 0 PlatformerGame_init [idle_tick 1]))"
        "(idle_tick 2)\<lparr>t_render := Some (Exception ''boom'')\<rparr>" "[idle_tick 3]"]
  by (simp add: run_simps eval_simps)

section \<open>A stop requested during an iteration\<close>

text \<open>
  Claim C7. When a stop is requested during iteration \<open>k\<close> of \<^verbatim>\<open>GameApplication.run\<close>
  (\<^verbatim>\<open>shutdown\<close> has cleared \<^verbatim>\<open>running\<close> by the end of the iteration), the iteration still
  makes its update, render and sleep calls, the flag is read at the loop condition only,
  no iteration \<open>k + 1\<close> is started, and \<^verbatim>\<open>run\<close> returns. (\<^verbatim>\<open>run\<close> has one normal result
  for a loop that was entered, \<^verbatim>\<open>True\<close>; it is what the specification calls
  \<open>StoppedExternally\<close>.)
\<close>

theorem stop_takes_effect_at_boundary:
  "run init pre app = (fs, a, Running) \<and> r_is_running t \<and> running a
     \<and> run_body t a = (evs, Inr a') \<and> \<not> running a' \<longrightarrow>
   run init (pre @ t # u # us) app = (fs @ [evs], shutdown a', Returns True)
   \<and> length (fs @ [evs]) = Suc (length pre)
   \<and> filter (\<lambda>e. e = Update (r_delta_time t) \<or> e = Render \<or> is_sleep e) evs =
       [Update (r_delta_time t), Render, Sleep 0.001]"
proof (rule impI)
  assume h: "run init pre app = (fs, a, Running) \<and> r_is_running t \<and> running a
     \<and> run_body t a = (evs, Inr a') \<and> \<not> running a'"
  then have 1: "run init pre app = (fs, a, Running)" by simp
  from h have body: "run_body t a = (evs, Inr a')" by simp
  from h have "run_loop a (t # u # us) = ([evs], shutdown a', Returns True)"
    by (simp add: run_loop_stop)
  with run_append [OF 1, of "t # u # us"] run_Running_length [OF 1] run_body_complete [OF body]
  show "run init (pre @ t # u # us) app = (fs @ [evs], shutdown a', Returns True)
   \<and> length (fs @ [evs]) = Suc (length pre)
   \<and> filter (\<lambda>e. e = Update (r_delta_time t) \<or> e = Render \<or> is_sleep e) evs =
       [Update (r_delta_time t), Render, Sleep 0.001]"
    by simp
qed

text \<open>
  The update callback of the second iteration calls \<^verbatim>\<open>shutdown\<close>: the render call and
  the sleep of that iteration are still made, and the two further answers of the
  engine start no iteration.
\<close>

theorem stop_takes_effect_at_boundary_witness:
  "run (initialize True) [plain_tick 0.1] GameApplication_init =
     ([[Update 0.1, Render, Sleep 0.001]], GameApplication_init\<lparr>running := True\<rparr>, Running)
   \<and> run_body ((plain_tick 0.2)\<lparr>r_update := Inr shutdown\<rparr>)
        (GameApplication_init\<lparr>running := True\<rparr>) =
       ([Update 0.2, Render, Sleep 0.001], Inr GameApplication_init)
   \<and> \<not> running GameApplication_init
   \<and> run (initialize True)
        ([plain_tick 0.1] @ (plain_tick 0.2)\<lparr>r_update := Inr shutdown\<rparr> # plain_tick 0.3 # [plain_tick 0.4])
        GameApplication_init =
       ([[Update 0.1, Render, Sleep 0.001], [Update 0.2, Render, Sleep 0.001]],
        GameApplication_init, Returns True)"
  using stop_takes_effect_at_boundary
    [of "initialize True" "[plain_tick 0.1]" GameApplication_init
        "[[Update 0.1, Render, Sleep 0.001]]" "GameApplication_init\<lparr>running := True\<rparr>"
        "(plain_tick 0.2)\<lparr>r_update := Inr shutdown\<rparr>"
        "[Update 0.2, Render, Sleep 0.001]" GameApplication_init "plain_tick 0.3" "[plain_tick 0.4]"]
  by (simp add: run_simps)

section \<open>What is checked on entry\<close>

text \<open>
  Claim C9, as stated: a configuration with a frame time that is not positive or with
  missing callbacks makes \<^verbatim>\<open>run\<close> fail before any iteration. The code has no frame
  time to configure, and a callback cannot be missing: an application that overrides
  nothing and sets no scene has the methods of the base class, which do nothing, and
  \<^verbatim>\<open>run\<close> skips the scene. Such an application runs its iteration and returns
  \<^verbatim>\<open>True\<close>.
\<close>

theorem no_configuration_check_counterexample:
  "run (initialize True) [plain_tick 0.1, stopped_tick] GameApplication_init =
     ([[Update 0.1, Render, Sleep 0.001]], GameApplication_init, Returns True)"
  by (simp add: run_simps)

text \<open>
  Claim C9, amended: the one thing \<^verbatim>\<open>run\<close> checks on entry is the initialisation of the
  engine, when the application is not running yet: if \<^verbatim>\<open>initialize\<close> raises, \<^verbatim>\<open>run\<close>
  raises, and if it returns \<^verbatim>\<open>False\<close>, \<^verbatim>\<open>run\<close> returns \<^verbatim>\<open>False\<close>, in both cases
  before any iteration. \<^verbatim>\<open>main\<close> of the platformer likewise returns before its loop
  when \<^verbatim>\<open>initialize\<close> fails.
\<close>

theorem initialization_failure_before_loop:
  "(\<not> running app \<and> init app = Inl e \<longrightarrow> run init ticks app = ([], app, Raises e))
   \<and> (\<not> running app \<and> init app = Inr (False, app') \<longrightarrow>
        run init ticks app = ([], app', Returns False))
   \<and> (\<not> running app \<longrightarrow>
        run (initialize False) ticks app =
          ([], app, Raises (Exception ''Failed to initialize Nexus Engine'')))
   \<and> main False clock0 mticks = ([], Returns ())"
  by (simp add: run_def initialize_def main_def)

theorem initialization_failure_before_loop_witness:
  "\<not> running GameApplication_init
   \<and> run (\<lambda>app. Inr (False, app)) [plain_tick 0.1] GameApplication_init =
       ([], GameApplication_init, Returns False)
   \<and> run (\<lambda>app. Inl KeyboardInterrupt) [plain_tick 0.1] GameApplication_init =
       ([], GameApplication_init, Raises KeyboardInterrupt)
   \<and> run (initialize False) [plain_tick 0.1] GameApplication_init =
       ([], GameApplication_init, Raises (Exception ''Failed to initialize Nexus Engine''))"
  using initialization_failure_before_loop
    [of GameApplication_init "\<lambda>app. Inr (False, app)" KeyboardInterrupt "[plain_tick 0.1]"
        GameApplication_init]
    initialization_failure_before_loop
    [of GameApplication_init "\<lambda>app. Inl KeyboardInterrupt" KeyboardInterrupt "[plain_tick 0.1]"
        GameApplication_init]
  by (simp add: GameApplication_init_def)

end
